theory Spec2Isabelle
  imports Main "HOL-Library.Char_ord" "HOL-Library.List_Lexorder" "HOL-Library.Product_Lexorder"
begin

text \<open>
  The service is the Express application of \<^verbatim>\<open>src/index.js\<close>: a middleware that checks
  an API key, a cached listing of the members, and a lookup of one member. The activity
  endpoints are those of the two revisions of the same application kept in
  \<^verbatim>\<open>src/unnamed/part_001\<close>. Line numbers refer to \<^verbatim>\<open>src/index.js\<close> unless said
  otherwise. What the handlers write to the console is left out: no response depends on
  it.
\<close>

section \<open>Values exchanged with the store and with the client\<close>

text \<open>
  Modelled from the spec: the declaration of the table \<open>channel_activity\<close> is not in the
  repository. A row has the columns the two statements of \<^verbatim>\<open>src/index.js\<close> name. The
  identity and the text columns are strings; \<open>username\<close> and \<open>roles\<close> may be SQL NULL
  (JavaScript \<open>null\<close>), which is \<open>None\<close> here; every record carries its flag and, as
  the spec has it, an activity timestamp, \<open>last_message\<close>, the one the statements order
  by. The two columns that share their name with a property of the JSON object sent to
  the client carry the suffix \<open>_col\<close>.
\<close>

record channel_activity_row =
  user_id :: string
  username_col :: "string option"
  roles_col :: "string option"
  on_server :: bool
  last_message :: int

text \<open>
  The object literal \<^verbatim>\<open>{ discordid, username, roles }\<close> built by the two row mappings
  (lines 142-146 and 196-200 of \<^verbatim>\<open>src/index.js\<close>).
\<close>

record member =
  discordid :: string
  username :: "string option"
  roles :: "string list"

text \<open>
  \<^verbatim>\<open>pool.query\<close> returns a promise: it resolves with the rows or rejects with an error.
\<close>

datatype 'r query_result = Resolved "'r list" | Rejected string

text \<open>The statements the handlers send to the store; used to log what a handler issued.\<close>

datatype query =
    SelectApiKey string
  | SelectListing
  | SelectUser string
  | SelectWindowSums int int int
  | SelectXHandles "string list"
  | SelectLatestSnapshot
  | SelectSnapshotSums int

text \<open>
  Modelled from the spec: the declarations of the tables the activity endpoints of
  \<^verbatim>\<open>src/unnamed/part_001\<close> read are not in the repository either. The rows have the
  columns the statements name: \<open>messages_data\<close> (daily message counts), \<open>snapshot_data\<close>
  (message counts per snapshot) and \<open>maptable\<close> (identity to X handle, which may be
  NULL). Counts are integers, dates are day numbers. Columns whose name is taken
  already carry the suffix \<open>_col\<close>.
\<close>

record messages_data_row =
  userid :: string
  date :: int
  messages :: int

record snapshot_data_row =
  snapshot_id :: int
  user_id_col :: string
  message_count :: int

record maptable_row =
  discordid_col :: string
  xhandle :: "string option"

text \<open>
  The store as one request finds it: the tables, which do not change while the request
  is served, the order of its strings, and what fails. A table is the list of its rows
  in the order in which the executor reads them, which is any order.
  \<open>failure p q = Some msg\<close> says that the promise of statement \<open>q\<close> rejects with an error
  of that message; otherwise the tables answer. \<open>collation p a b\<close> says that \<open>a\<close> sorts
  before or with \<open>b\<close> under the collation of the identity column of
  \<open>channel_activity\<close>.
\<close>

record pool =
  failure :: "query \<Rightarrow> string option"
  collation :: "string \<Rightarrow> string \<Rightarrow> bool"
  apikeys :: "string list"
  channel_activity :: "channel_activity_row list"
  messages_data :: "messages_data_row list"
  snapshots :: "int list"
  snapshot_data :: "snapshot_data_row list"
  maptable :: "maptable_row list"

text \<open>What \<^verbatim>\<open>res.json\<close> serialises.\<close>

datatype json = Users "member list" | User member | Strings "string list" | Error string

record response =
  status :: nat
  body :: json

text \<open>\<^verbatim>\<open>res.json(x)\<close> answers with status 200; \<^verbatim>\<open>res.status(n).json(x)\<close> with \<open>n\<close>.\<close>

definition res_json :: "json \<Rightarrow> response" where
  "res_json x = \<lparr>status = 200, body = x\<rparr>"

definition res_status_json :: "nat \<Rightarrow> json \<Rightarrow> response" where
  "res_status_json n x = \<lparr>status = n, body = x\<rparr>"

section \<open>JavaScript truthiness and string splitting\<close>

text \<open>
  The conditions of the source test values by truthiness: \<open>null\<close> and \<open>undefined\<close> are
  falsy, so are the number \<open>0\<close> and the empty string; every array is truthy, the empty
  one too.
\<close>

definition truthy_array :: "'a list option \<Rightarrow> bool" where
  "truthy_array v = (case v of None \<Rightarrow> False | Some xs \<Rightarrow> True)"

definition truthy_number :: "int option \<Rightarrow> bool" where
  "truthy_number v = (case v of None \<Rightarrow> False | Some n \<Rightarrow> n \<noteq> 0)"

definition truthy_string :: "string option \<Rightarrow> bool" where
  "truthy_string v = (case v of None \<Rightarrow> False | Some s \<Rightarrow> s \<noteq> [])"

text \<open>
  \<^verbatim>\<open>String.prototype.split\<close> with a string separator: the subject is scanned from the
  left, every occurrence of the separator closes the current piece and is skipped, and
  the rest after the last occurrence is the last piece. \<open>piece\<close> is the piece being read.
  With the empty separator JavaScript splits into the single characters.
\<close>

function split_from :: "string \<Rightarrow> string \<Rightarrow> string \<Rightarrow> string list" where
  "split_from sep piece s =
     (if s = [] then [piece]
      else if sep \<noteq> [] \<and> take (length sep) s = sep
        then piece # split_from sep [] (drop (length sep) s)
      else split_from sep (piece @ [hd s]) (tl s))"
  by pat_completeness auto
termination
  by (relation "measure (\<lambda>(sep, piece, s). length s)") auto

declare split_from.simps [simp del]

definition split :: "string \<Rightarrow> string \<Rightarrow> string list" where
  "split s sep = (if sep = [] then map (\<lambda>c. [c]) s else split_from sep [] s)"

text \<open>The inverse of \<open>split\<close>, \<^verbatim>\<open>Array.prototype.join\<close>; used to state what \<open>split\<close> keeps.\<close>

fun join :: "string list \<Rightarrow> string \<Rightarrow> string" where
  "join [] sep = []"
| "join [x] sep = x"
| "join (x # y # ys) sep = x @ sep @ join (y # ys) sep"

text \<open>
  The row mapping \<^verbatim>\<open>user => ({ discordid: user.user_id, username: user.username,
  roles: user.roles ? user.roles.split(', ') : [] })\<close>.
\<close>

definition roles_of :: "string option \<Rightarrow> string list" where
  "roles_of r = (if truthy_string r then (case r of Some s \<Rightarrow> split s '', '' | None \<Rightarrow> []) else [])"

definition user_json :: "channel_activity_row \<Rightarrow> member" where
  "user_json user =
     \<lparr>discordid = user_id user, username = username_col user, roles = roles_of (roles_col user)\<rparr>"

section \<open>The listing cache\<close>

text \<open>
  The module-level object \<^verbatim>\<open>cache\<close> (lines 15-19): \<open>data\<close> and \<open>timestamp\<close> start as
  \<open>null\<close>, \<open>cacheTime\<close> is \<open>5 * 60 * 1000\<close> milliseconds.
\<close>

record cache =
  data :: "member list option"
  timestamp :: "int option"
  cacheTime :: int

definition cache_init :: cache where
  "cache_init = \<lparr>data = None, timestamp = None, cacheTime = 5 * 60 * 1000\<rparr>"

text \<open>
  The condition of line 127:
  \<^verbatim>\<open>cache.data && cache.timestamp && (now - cache.timestamp < cache.cacheTime)\<close>.
\<close>

definition cache_hit :: "cache \<Rightarrow> int \<Rightarrow> bool" where
  "cache_hit c now =
     (truthy_array (data c) \<and> truthy_number (timestamp c) \<and>
      (case timestamp c of None \<Rightarrow> False | Some t \<Rightarrow> now - t < cacheTime c))"

text \<open>The read of lines 126-130: the payload the handler serves from the cache, if any.\<close>

definition cache_get :: "cache \<Rightarrow> int \<Rightarrow> member list option" where
  "cache_get c now = (if cache_hit c now then data c else None)"

text \<open>
  What a handler did: the response it sent, the cache it left, and the statements it
  sent to the store, in order.
\<close>

record outcome =
  sent :: response
  cache_after :: cache
  issued :: "query list"


definition row_before ::
    "(string \<Rightarrow> string \<Rightarrow> bool) \<Rightarrow> channel_activity_row \<Rightarrow> channel_activity_row \<Rightarrow> bool" where
  "row_before le a b =
     (if user_id a = user_id b then last_message b \<le> last_message a
      else le (user_id a) (user_id b))"

fun insert_by :: "('r \<Rightarrow> 'r \<Rightarrow> bool) \<Rightarrow> 'r \<Rightarrow> 'r list \<Rightarrow> 'r list" where
  "insert_by before x [] = [x]"
| "insert_by before x (y # ys) =
     (if before x y then x # y # ys else y # insert_by before x ys)"

definition order_by :: "('r \<Rightarrow> 'r \<Rightarrow> bool) \<Rightarrow> 'r list \<Rightarrow> 'r list" where
  "order_by before rows = foldr (insert_by before) rows []"

fun distinct_on :: "('r \<Rightarrow> 'k) \<Rightarrow> 'r list \<Rightarrow> 'r list" where
  "distinct_on k [] = []"
| "distinct_on k [x] = [x]"
| "distinct_on k (x # y # ys) =
     (if k x = k y then distinct_on k (x # ys) else x # distinct_on k (y # ys))"

definition listing_rows ::
    "(string \<Rightarrow> string \<Rightarrow> bool) \<Rightarrow> channel_activity_row list \<Rightarrow> channel_activity_row list" where
  "listing_rows le tbl = distinct_on user_id (order_by (row_before le) (filter on_server tbl))"

definition lookup_rows ::
    "(string \<Rightarrow> string \<Rightarrow> bool) \<Rightarrow> channel_activity_row list \<Rightarrow> string \<Rightarrow>
     channel_activity_row list" where
  "lookup_rows le tbl key =
     take 1 (distinct_on user_id (order_by (row_before le)
       (filter (\<lambda>r. on_server r \<and> (user_id r = key \<or> username_col r = Some key)) tbl)))"

definition pool_query :: "pool \<Rightarrow> query \<Rightarrow> 'r list \<Rightarrow> 'r query_result" where
  "pool_query p q rows = (case failure p q of Some msg \<Rightarrow> Rejected msg | None \<Rightarrow> Resolved rows)"

definition select_listing :: "pool \<Rightarrow> channel_activity_row query_result" where
  "select_listing p =
     pool_query p SelectListing (listing_rows (collation p) (channel_activity p))"

definition select_user :: "pool \<Rightarrow> string \<Rightarrow> channel_activity_row query_result" where
  "select_user p key =
     pool_query p (SelectUser key) (lookup_rows (collation p) (channel_activity p) key)"

text \<open>\<^verbatim>\<open>SELECT apikey FROM apikeys WHERE apikey = $1\<close> (line 41).\<close>

definition select_apikey :: "pool \<Rightarrow> string \<Rightarrow> string query_result" where
  "select_apikey p key = pool_query p (SelectApiKey key) (filter (\<lambda>k. k = key) (apikeys p))"

text \<open>
  The part of the listing handler that runs once the query promise has settled (lines
  142-155): on rows, the mapped users are written to the cache together with the \<open>now\<close>
  read before the query, and sent; on a rejection the \<open>catch\<close> block answers 500.
\<close>

definition refresh :: "int \<Rightarrow> channel_activity_row query_result \<Rightarrow> cache \<Rightarrow> response \<times> cache" where
  "refresh now result c =
     (case result of
        Resolved rows \<Rightarrow>
          (let users = map user_json rows
           in (res_json (Users users), c\<lparr>data := Some users, timestamp := Some now\<rparr>))
      | Rejected msg \<Rightarrow> (res_status_json 500 (Error ''Failed to fetch all users''), c))"

text \<open>The handler of \<^verbatim>\<open>GET /api/discord\<close> (lines 124-156), run without interruption.\<close>

definition get_api_discord :: "pool \<Rightarrow> int \<Rightarrow> cache \<Rightarrow> outcome" where
  "get_api_discord p now c =
     (case cache_get c now of
        Some users \<Rightarrow> \<lparr>sent = res_json (Users users), cache_after = c, issued = []\<rparr>
      | None \<Rightarrow>
          (let (r, c') = refresh now (select_listing p) c
           in \<lparr>sent = r, cache_after = c', issued = [SelectListing]\<rparr>))"

text \<open>
  The handler of \<^verbatim>\<open>GET /api/discord/:idusername\<close> (lines 175-207). It never touches
  the cache.
\<close>

definition get_api_discord_idusername :: "pool \<Rightarrow> string \<Rightarrow> cache \<Rightarrow> outcome" where
  "get_api_discord_idusername p idusername c =
     \<lparr>sent =
        (case select_user p idusername of
           Rejected msg \<Rightarrow> res_status_json 500 (Error ''Failed to fetch user'')
         | Resolved [] \<Rightarrow> res_status_json 404 (Error ''User not found'')
         | Resolved (user # rest) \<Rightarrow> res_json (User (user_json user))),
      cache_after = c,
      issued = [SelectUser idusername]\<rparr>"

section \<open>The API-key middleware\<close>

text \<open>
  \<^verbatim>\<open>authenticateApiKey\<close> (lines 33-52). The argument is the header \<open>x-api-key\<close>,
  \<open>None\<close> when the request has none. The result is the response the middleware sent, or
  \<open>None\<close> when it called \<^verbatim>\<open>next()\<close>, and the statements it issued. \<^verbatim>\<open>!apiKey\<close> holds
  for the missing header and for the empty one.
\<close>

definition authenticateApiKey :: "pool \<Rightarrow> string option \<Rightarrow> response option \<times> query list" where
  "authenticateApiKey p apiKey =
     (case (if truthy_string apiKey then apiKey else None) of
        None \<Rightarrow> (Some (res_status_json 401 (Error ''API key is required'')), [])
      | Some key \<Rightarrow>
          (case select_apikey p key of
             Resolved rows \<Rightarrow>
               (if length rows = 0
                then (Some (res_status_json 401 (Error ''Invalid API key'')), [SelectApiKey key])
                else (None, [SelectApiKey key]))
           | Rejected msg \<Rightarrow>
               (Some (res_status_json 500 (Error ''Authentication error'')), [SelectApiKey key])))"

text \<open>
  \<^verbatim>\<open>app.get(path, authenticateApiKey, handler)\<close>: the handler runs if and only if the
  middleware called \<^verbatim>\<open>next()\<close>.
\<close>

definition app_get :: "pool \<Rightarrow> string option \<Rightarrow> (cache \<Rightarrow> outcome) \<Rightarrow> cache \<Rightarrow> outcome" where
  "app_get p apiKey handler c =
     (case authenticateApiKey p apiKey of
        (Some r, qs) \<Rightarrow> \<lparr>sent = r, cache_after = c, issued = qs\<rparr>
      | (None, qs) \<Rightarrow>
          (let out = handler c
           in \<lparr>sent = sent out, cache_after = cache_after out, issued = qs @ issued out\<rparr>))"

text \<open>The two routes of \<^verbatim>\<open>src/index.js\<close> the claims are about (lines 124 and 175).\<close>

definition route_api_discord :: "pool \<Rightarrow> string option \<Rightarrow> int \<Rightarrow> cache \<Rightarrow> outcome" where
  "route_api_discord p apiKey now c = app_get p apiKey (get_api_discord p now) c"

definition route_api_discord_idusername ::
    "pool \<Rightarrow> string option \<Rightarrow> string \<Rightarrow> cache \<Rightarrow> outcome" where
  "route_api_discord_idusername p apiKey idusername c =
     app_get p apiKey (get_api_discord_idusername p idusername) c"

section \<open>States the cache can reach\<close>

text \<open>
  JavaScript runs a handler without interruption up to its \<^verbatim>\<open>await\<close>, and from there
  to its end once the promise has settled; other requests may run in between. The only
  assignments to the cache are those of lines 148-149, in the part after the
  \<^verbatim>\<open>await\<close>, which is \<open>refresh\<close>. So every state of the cache comes from \<open>cache_init\<close> by
  a sequence of \<open>refresh\<close> steps, each with the \<open>now\<close> its request read and the result of
  its query. \<open>reaches log c\<close>: the cache is \<open>c\<close> after the refreshes whose writes are
  \<open>log\<close>, a list of the pairs (timestamp, payload) written, oldest first.
\<close>

definition written :: "int \<Rightarrow> channel_activity_row query_result \<Rightarrow> (int \<times> member list) list" where
  "written now result =
     (case result of Resolved rows \<Rightarrow> [(now, map user_json rows)] | Rejected msg \<Rightarrow> [])"

inductive reaches :: "(int \<times> member list) list \<Rightarrow> cache \<Rightarrow> bool" where
  start: "reaches [] cache_init"
| settled: "reaches log c \<Longrightarrow> reaches (log @ written now result) (snd (refresh now result c))"

section \<open>The activity endpoints\<close>







text \<open>
  \<open>GROUP BY\<close> with \<open>SUM\<close>: one row per value of the grouping column, with the sum of the
  summed column over the rows of the group.
\<close>

definition group_sum :: "('r \<Rightarrow> string) \<Rightarrow> ('r \<Rightarrow> int) \<Rightarrow> 'r list \<Rightarrow> (string \<times> int) list" where
  "group_sum key val rows =
     map (\<lambda>k. (k, sum_list (map val (filter (\<lambda>r. key r = k) rows)))) (remdups (map key rows))"

text \<open>
  The statement of lines 151-157 and 189-195:
  \<^verbatim>\<open>SELECT userid, SUM(messages) FROM messages_data WHERE date BETWEEN $1 AND $2
  GROUP BY userid HAVING SUM(messages) > $3\<close>.
\<close>

definition window_sums :: "messages_data_row list \<Rightarrow> int \<Rightarrow> int \<Rightarrow> int \<Rightarrow> (string \<times> int) list" where
  "window_sums tbl d1 d2 m =
     filter (\<lambda>(u, total). total > m)
       (group_sum userid messages (filter (\<lambda>r. d1 \<le> date r \<and> date r \<le> d2) tbl))"



text \<open>
  \<^verbatim>\<open>Array.from(new Set(rows.map(r => r.xhandle).filter(Boolean)))\<close>: the truthy handles,
  each once, in the order of their first occurrence.
\<close>

fun Set_from :: "'a list \<Rightarrow> 'a list \<Rightarrow> 'a list" where
  "Set_from seen [] = seen"
| "Set_from seen (x # xs) = Set_from (if x \<in> set seen then seen else seen @ [x]) xs"

definition coreSet :: "string option list \<Rightarrow> string list" where
  "coreSet handles =
     Set_from [] (List.map_filter (\<lambda>h. if truthy_string h then h else None) handles)"





















section \<open>Example stores\<close>

text \<open>
  A store whose strings are ordered character by character, with one key, two rows of
  the same identity (the later one renamed and with
  roles), daily counts, two snapshots 42 apart and one mapped handle; the same store
  with every statement but the key check rejected; with every statement rejected; and
  with no member.
\<close>

definition example_old_row :: channel_activity_row where
  "example_old_row =
     \<lparr>user_id = ''1'', username_col = Some ''anna'', roles_col = None, on_server = True,
      last_message = 10\<rparr>"

definition example_row :: channel_activity_row where
  "example_row =
     \<lparr>user_id = ''1'', username_col = Some ''ann'', roles_col = Some ''A, B'', on_server = True,
      last_message = 20\<rparr>"

definition example_pool :: pool where
  "example_pool =
     \<lparr>failure = (\<lambda>q. None),
      collation = (\<lambda>a b. a \<le> b),
      apikeys = [''secret''],
      channel_activity = [example_old_row, example_row],
      messages_data =
        [\<lparr>userid = ''1'', date = 3, messages = 300\<rparr>, \<lparr>userid = ''1'', date = 4, messages = 201\<rparr>,
         \<lparr>userid = ''2'', date = 3, messages = 500\<rparr>],
      snapshots = [8, 50],
      snapshot_data =
        [\<lparr>snapshot_id = 50, user_id_col = ''1'', message_count = 400\<rparr>,
         \<lparr>snapshot_id = 50, user_id_col = ''1'', message_count = 200\<rparr>,
         \<lparr>snapshot_id = 50, user_id_col = ''2'', message_count = 501\<rparr>,
         \<lparr>snapshot_id = 8, user_id_col = ''1'', message_count = 99\<rparr>],
      maptable =
        [\<lparr>discordid_col = ''1'', xhandle = Some ''ann_x''\<rparr>, \<lparr>discordid_col = ''2'', xhandle = None\<rparr>]\<rparr>"

definition failing_pool :: pool where
  "failing_pool =
     example_pool\<lparr>failure :=
       (\<lambda>q. case q of SelectApiKey k \<Rightarrow> None | _ \<Rightarrow> Some ''connection terminated'')\<rparr>"

definition unreachable_pool :: pool where
  "unreachable_pool = example_pool\<lparr>failure := (\<lambda>q. Some ''connection terminated'')\<rparr>"

definition empty_pool :: pool where
  "empty_pool = example_pool\<lparr>channel_activity := []\<rparr>"

section \<open>Facts about the cache and the listing handler\<close>

lemma cache_get_Some_iff:
  "(cache_get c now = Some users) =
     (data c = Some users \<and> (\<exists>t. timestamp c = Some t \<and> t \<noteq> 0 \<and> now - t < cacheTime c))"
  by (auto simp: cache_get_def cache_hit_def truthy_array_def truthy_number_def split: option.splits)

lemma cache_get_None_iff:
  "(cache_get c now = None) =
     (data c = None \<or> (\<forall>t. timestamp c = Some t \<longrightarrow> t = 0 \<or> \<not> now - t < cacheTime c))"
  by (auto simp: cache_get_def cache_hit_def truthy_array_def truthy_number_def split: option.splits)

lemma get_api_discord_hit:
  "cache_get c now = Some users \<Longrightarrow>
     get_api_discord p now c = \<lparr>sent = res_json (Users users), cache_after = c, issued = []\<rparr>"
  by (simp add: get_api_discord_def)

lemma get_api_discord_miss:
  "cache_get c now = None \<Longrightarrow>
     get_api_discord p now c =
       \<lparr>sent = fst (refresh now (select_listing p) c),
        cache_after = snd (refresh now (select_listing p) c),
        issued = [SelectListing]\<rparr>"
  by (simp add: get_api_discord_def split: prod.splits)

lemma get_api_discord_miss_issued:
  "cache_get c now = None \<Longrightarrow> issued (get_api_discord p now c) = [SelectListing]"
  by (simp add: get_api_discord_miss)

lemma refresh_Rejected:
  "refresh now (Rejected msg) c = (res_status_json 500 (Error ''Failed to fetch all users''), c)"
  by (simp add: refresh_def)

lemma refresh_Resolved:
  "refresh now (Resolved rows) c =
     (res_json (Users (map user_json rows)),
      c\<lparr>data := Some (map user_json rows), timestamp := Some now\<rparr>)"
  by (simp add: refresh_def Let_def)

lemma reaches_shape:
  "reaches log c \<Longrightarrow>
     (log = [] \<longrightarrow> c = cache_init) \<and>
     (log \<noteq> [] \<longrightarrow>
        c = \<lparr>data = Some (snd (last log)), timestamp = Some (fst (last log)), cacheTime = 300000\<rparr>)"
proof (induction rule: reaches.induct)
  case start
  show ?case by simp
next
  case (settled log c now result)
  show ?case
  proof (cases result)
    case (Resolved rows)
    with settled.IH show ?thesis
      by (cases "log = []") (auto simp: refresh_Resolved written_def cache_init_def)
  next
    case (Rejected msg)
    with settled.IH show ?thesis
      by (simp add: refresh_Rejected written_def)
  qed
qed

lemma reaches_cacheTime: "reaches log c \<Longrightarrow> cacheTime c = 300000"
  using reaches_shape [of log c] by (cases "log = []") (auto simp: cache_init_def)

lemma get_api_discord_reaches:
  assumes "reaches log c"
  shows "\<exists>log'. reaches log' (cache_after (get_api_discord p now c))"
proof (cases "cache_get c now")
  case None
  have "reaches (log @ written now (select_listing p)) (snd (refresh now (select_listing p) c))"
    using assms by (rule reaches.settled)
  with None show ?thesis
    by (auto simp: get_api_discord_miss)
next
  case (Some users)
  with assms show ?thesis
    by (auto simp: get_api_discord_hit)
qed

lemma example_listing: "select_listing example_pool = Resolved [example_row]"
  by (simp add: select_listing_def pool_query_def example_pool_def listing_rows_def
      example_row_def example_old_row_def order_by_def row_before_def)

lemma empty_listing: "select_listing empty_pool = Resolved []"
  by (simp add: select_listing_def pool_query_def empty_pool_def example_pool_def listing_rows_def
      order_by_def)

lemma failing_listing: "select_listing failing_pool = Rejected ''connection terminated''"
  by (simp add: select_listing_def pool_query_def failing_pool_def example_pool_def)

lemma example_refresh_reaches:
  "reaches [(now, [user_json example_row])]
     \<lparr>data = Some [user_json example_row], timestamp = Some now, cacheTime = 300000\<rparr>"
  using reaches.settled [OF reaches.start, of now "Resolved [example_row]"]
  by (simp add: written_def refresh_Resolved cache_init_def)

section \<open>The claims about the cache\<close>

text \<open>
  C1 (as amended). In every state the cache can reach, a read at time \<open>now\<close> serves the
  stored payload, unchanged and without a query, if and only if a payload is present,
  a timestamp is present and not 0, and \<open>now - timestamp < 300000\<close>; otherwise the read
  is a miss and the handler queries the store. A listing stored with timestamp 1000 is
  served at 1000 and at 300999 and is a miss at 301000. The timestamp is tested by
  truthiness in line 127, so the timestamp 0 counts as absent.
\<close>

theorem cache_read_served_iff:
  assumes "reaches log c"
  shows "(cache_get c now = Some users \<longleftrightarrow>
            data c = Some users \<and> (\<exists>t. timestamp c = Some t \<and> t \<noteq> 0 \<and> now - t < 300000)) \<and>
         (cache_get c now = Some users \<longrightarrow>
            get_api_discord p now c = \<lparr>sent = res_json (Users users), cache_after = c, issued = []\<rparr>) \<and>
         (cache_get c now = None \<longrightarrow> issued (get_api_discord p now c) = [SelectListing]) \<and>
         cache_get \<lparr>data = Some users, timestamp = Some 1000, cacheTime = 300000\<rparr> 1000 = Some users \<and>
         cache_get \<lparr>data = Some users, timestamp = Some 1000, cacheTime = 300000\<rparr> 300999 = Some users \<and>
         cache_get \<lparr>data = Some users, timestamp = Some 1000, cacheTime = 300000\<rparr> 301000 = None"
  using reaches_cacheTime [OF assms]
  by (simp add: cache_get_Some_iff cache_get_None_iff get_api_discord_hit get_api_discord_miss)

theorem cache_read_served_iff_witness:
  "reaches [(1000, [user_json example_row])]
     \<lparr>data = Some [user_json example_row], timestamp = Some 1000, cacheTime = 300000\<rparr> \<and>
   get_api_discord failing_pool 300999
     \<lparr>data = Some [user_json example_row], timestamp = Some 1000, cacheTime = 300000\<rparr> =
     \<lparr>sent = res_json (Users [user_json example_row]),
      cache_after = \<lparr>data = Some [user_json example_row], timestamp = Some 1000, cacheTime = 300000\<rparr>,
      issued = []\<rparr> \<and>
   issued (get_api_discord failing_pool 301000
     \<lparr>data = Some [user_json example_row], timestamp = Some 1000, cacheTime = 300000\<rparr>) =
     [SelectListing]"
  using example_refresh_reaches [of 1000]
    cache_read_served_iff [OF example_refresh_reaches [of 1000], of 300999 "[user_json example_row]" failing_pool]
    cache_read_served_iff [OF example_refresh_reaches [of 1000], of 301000 "[user_json example_row]" failing_pool]
  by simp

text \<open>
  The claim as stated fails for a listing stored at the clock reading 0: payload and
  timestamp are present and \<open>5 - 0 < 300000\<close>, yet the read at 5 is a miss.
\<close>

theorem cache_read_zero_timestamp_counterexample:
  "data (cache_after (get_api_discord example_pool 0 cache_init)) = Some [user_json example_row] \<and>
   timestamp (cache_after (get_api_discord example_pool 0 cache_init)) = Some 0 \<and>
   5 - 0 < cacheTime (cache_after (get_api_discord example_pool 0 cache_init)) \<and>
   cache_get (cache_after (get_api_discord example_pool 0 cache_init)) 5 = None"
proof -
  have "cache_get cache_init 0 = None"
    by (simp add: cache_get_None_iff cache_init_def)
  then have "cache_after (get_api_discord example_pool 0 cache_init) =
      \<lparr>data = Some [user_json example_row], timestamp = Some 0, cacheTime = 300000\<rparr>"
    by (simp add: get_api_discord_miss example_listing refresh_Resolved cache_init_def)
  then show ?thesis
    by (simp add: cache_get_None_iff)
qed

text \<open>
  C2. If the refresh query fails, the handler answers 500 and leaves the cache exactly
  as it was, payload and timestamp; nothing is written, so every later read of the
  cache gives what it gave before. The same holds for the part of the handler that runs
  after the query has settled, whatever ran in between.
\<close>

theorem failed_refresh_leaves_cache:
  assumes "select_listing p = Rejected msg" and "cache_get c now = None"
  shows "get_api_discord p now c =
           \<lparr>sent = res_status_json 500 (Error ''Failed to fetch all users''),
            cache_after = c, issued = [SelectListing]\<rparr> \<and>
         (\<forall>t. cache_get (cache_after (get_api_discord p now c)) t = cache_get c t) \<and>
         refresh now (select_listing p) c' =
           (res_status_json 500 (Error ''Failed to fetch all users''), c') \<and>
         written now (select_listing p) = []"
  using assms by (simp add: get_api_discord_miss refresh_Rejected written_def)

theorem failed_refresh_leaves_cache_witness:
  "get_api_discord failing_pool 301000
     \<lparr>data = Some [user_json example_row], timestamp = Some 1000, cacheTime = 300000\<rparr> =
     \<lparr>sent = res_status_json 500 (Error ''Failed to fetch all users''),
      cache_after = \<lparr>data = Some [user_json example_row], timestamp = Some 1000, cacheTime = 300000\<rparr>,
      issued = [SelectListing]\<rparr>"
proof -
  have miss: "cache_get \<lparr>data = Some [user_json example_row], timestamp = Some 1000,
      cacheTime = 300000\<rparr> 301000 = None"
    by (simp add: cache_get_None_iff)
  show ?thesis
    using failed_refresh_leaves_cache [OF failing_listing miss] by simp
qed

text \<open>
  C3 (as amended). When the listing query returns no row on a miss at a time \<open>now\<close>
  other than 0, the empty sequence is sent and stored together with \<open>now\<close>, and every
  later request at a time \<open>t\<close> with \<open>t - now < TTL\<close> is served the empty sequence from
  the cache, with no query, whatever the store holds by then.
\<close>

theorem empty_listing_cached:
  assumes "select_listing p = Resolved []" and "cache_get c now = None" and "now \<noteq> 0"
  shows "sent (get_api_discord p now c) = res_json (Users []) \<and>
         data (cache_after (get_api_discord p now c)) = Some [] \<and>
         timestamp (cache_after (get_api_discord p now c)) = Some now \<and>
         (\<forall>t p'. t - now < cacheTime c \<longrightarrow>
            get_api_discord p' t (cache_after (get_api_discord p now c)) =
              \<lparr>sent = res_json (Users []), cache_after = cache_after (get_api_discord p now c),
               issued = []\<rparr>)"
proof -
  let ?c' = "cache_after (get_api_discord p now c)"
  have c': "?c' = c\<lparr>data := Some [], timestamp := Some now\<rparr>"
    using assms by (simp add: get_api_discord_miss refresh_Resolved)
  have "cache_get ?c' t = Some []" if "t - now < cacheTime c" for t
    using that assms(3) by (simp add: c' cache_get_Some_iff)
  then have "\<forall>t p'. t - now < cacheTime c \<longrightarrow>
      get_api_discord p' t ?c' = \<lparr>sent = res_json (Users []), cache_after = ?c', issued = []\<rparr>"
    by (simp add: get_api_discord_hit)
  moreover have "sent (get_api_discord p now c) = res_json (Users [])"
    using assms by (simp add: get_api_discord_miss refresh_Resolved)
  ultimately show ?thesis
    by (simp add: c')
qed

theorem empty_listing_cached_witness:
  "data (cache_after (get_api_discord empty_pool 1000 cache_init)) = Some [] \<and>
   timestamp (cache_after (get_api_discord empty_pool 1000 cache_init)) = Some 1000 \<and>
   get_api_discord example_pool 300999 (cache_after (get_api_discord empty_pool 1000 cache_init)) =
     \<lparr>sent = res_json (Users []),
      cache_after = cache_after (get_api_discord empty_pool 1000 cache_init), issued = []\<rparr>"
proof -
  have miss: "cache_get cache_init 1000 = None"
    by (simp add: cache_get_None_iff cache_init_def)
  have now: "(1000 :: int) \<noteq> 0" by simp
  have "(300999 :: int) - 1000 < cacheTime cache_init"
    by (simp add: cache_init_def)
  then show ?thesis
    using empty_listing_cached [OF empty_listing miss now] by blast
qed

text \<open>
  The claim as stated fails when the empty listing is stored at the clock reading 0:
  the request at 1, within the TTL, queries the store again.
\<close>

theorem empty_listing_at_zero_counterexample:
  "select_listing empty_pool = Resolved [] \<and>
   cache_get cache_init 0 = None \<and>
   data (cache_after (get_api_discord empty_pool 0 cache_init)) = Some [] \<and>
   timestamp (cache_after (get_api_discord empty_pool 0 cache_init)) = Some 0 \<and>
   1 - 0 < cacheTime (cache_after (get_api_discord empty_pool 0 cache_init)) \<and>
   issued (get_api_discord empty_pool 1 (cache_after (get_api_discord empty_pool 0 cache_init))) =
     [SelectListing]"
proof -
  have miss: "cache_get cache_init 0 = None"
    by (simp add: cache_get_None_iff cache_init_def)
  then have c': "cache_after (get_api_discord empty_pool 0 cache_init) =
      \<lparr>data = Some [], timestamp = Some 0, cacheTime = 300000\<rparr>"
    by (simp add: get_api_discord_miss empty_listing refresh_Resolved cache_init_def)
  have "cache_get (cache_after (get_api_discord empty_pool 0 cache_init)) 1 = None"
    unfolding c' by (simp add: cache_get_None_iff)
  then have "issued (get_api_discord empty_pool 1
      (cache_after (get_api_discord empty_pool 0 cache_init))) = [SelectListing]"
    by (rule get_api_discord_miss_issued)
  moreover have "data (cache_after (get_api_discord empty_pool 0 cache_init)) = Some [] \<and>
      timestamp (cache_after (get_api_discord empty_pool 0 cache_init)) = Some 0 \<and>
      1 - 0 < cacheTime (cache_after (get_api_discord empty_pool 0 cache_init))"
    unfolding c' by simp
  ultimately show ?thesis
    using miss empty_listing by blast
qed

text \<open>
  C6 (as amended). For every cache state with a payload and a timestamp other than 0,
  a read within the TTL window sends the payload, leaves the cache as it is (payload,
  timestamp and TTL) and issues no query; so does every further read within the
  window, with the same response, whatever the store holds.
\<close>

theorem hit_is_idempotent:
  assumes "data c = Some users" and "timestamp c = Some t" and "t \<noteq> 0"
    and "now - t < cacheTime c"
  shows "get_api_discord p now c = \<lparr>sent = res_json (Users users), cache_after = c, issued = []\<rparr> \<and>
         (\<forall>now' p'. now' - t < cacheTime c \<longrightarrow>
            get_api_discord p' now' (cache_after (get_api_discord p now c)) =
              \<lparr>sent = res_json (Users users), cache_after = c, issued = []\<rparr>)"
proof -
  have hit: "cache_get c n = Some users" if "n - t < cacheTime c" for n
    using that assms by (simp add: cache_get_Some_iff)
  show ?thesis
    using hit assms(4) by (simp add: get_api_discord_hit)
qed

theorem hit_is_idempotent_witness:
  "get_api_discord example_pool 2000
     \<lparr>data = Some [user_json example_old_row], timestamp = Some 1000, cacheTime = 300000\<rparr> =
     \<lparr>sent = res_json (Users [user_json example_old_row]),
      cache_after = \<lparr>data = Some [user_json example_old_row], timestamp = Some 1000,
        cacheTime = 300000\<rparr>,
      issued = []\<rparr>"
  using hit_is_idempotent [of "\<lparr>data = Some [user_json example_old_row], timestamp = Some 1000,
      cacheTime = 300000\<rparr>" "[user_json example_old_row]" 1000 2000 example_pool]
  by simp

text \<open>
  The claim as stated fails for an entry stored at the clock reading 0: at 5 the entry
  is within its TTL window, yet the read queries the store and rewrites the timestamp.
\<close>

theorem hit_zero_timestamp_counterexample:
  "5 - 0 < cacheTime \<lparr>data = Some [user_json example_old_row], timestamp = Some 0, cacheTime = 300000\<rparr> \<and>
   get_api_discord example_pool 5
     \<lparr>data = Some [user_json example_old_row], timestamp = Some 0, cacheTime = 300000\<rparr> =
     \<lparr>sent = res_json (Users [user_json example_row]),
      cache_after = \<lparr>data = Some [user_json example_row], timestamp = Some 5, cacheTime = 300000\<rparr>,
      issued = [SelectListing]\<rparr>"
proof -
  have "cache_get \<lparr>data = Some [user_json example_old_row], timestamp = Some 0,
      cacheTime = 300000\<rparr> 5 = None"
    by (simp add: cache_get_None_iff)
  then show ?thesis
    by (simp add: get_api_discord_miss example_listing refresh_Resolved)
qed

text \<open>
  C9. In every state the cache can reach, the payload is present if and only if the
  timestamp is: both are absent at the start, and once a refresh has written, payload and
  timestamp are the pair written by one and the same refresh, the last one; the TTL is
  never written. A request to the listing route leads to such a state again, and the
  lookup route leaves the cache as it is.
\<close>

theorem cache_pair_invariant:
  assumes "reaches log c"
  shows "((data c = None) = (timestamp c = None)) \<and>
         (log = [] \<longrightarrow> c = cache_init) \<and>
         (log \<noteq> [] \<longrightarrow> data c = Some (snd (last log)) \<and> timestamp c = Some (fst (last log))) \<and>
         cacheTime c = 300000 \<and>
         (\<exists>log'. reaches log' (cache_after (route_api_discord p apiKey now c))) \<and>
         cache_after (route_api_discord_idusername p apiKey key c) = c"
proof -
  have shape: "(log = [] \<longrightarrow> c = cache_init) \<and>
     (log \<noteq> [] \<longrightarrow>
        c = \<lparr>data = Some (snd (last log)), timestamp = Some (fst (last log)), cacheTime = 300000\<rparr>)"
    using assms by (rule reaches_shape)
  have iff: "(data c = None) = (timestamp c = None)"
    using shape by (cases "log = []") (auto simp: cache_init_def)
  have fields: "log \<noteq> [] \<longrightarrow> data c = Some (snd (last log)) \<and> timestamp c = Some (fst (last log))"
    using shape by auto
  have route: "\<exists>log'. reaches log' (cache_after (route_api_discord p apiKey now c))"
  proof (cases "authenticateApiKey p apiKey")
    case (Pair verdict qs)
    show ?thesis
    proof (cases verdict)
      case None
      with Pair get_api_discord_reaches [OF assms, of p now] show ?thesis
        by (simp add: route_api_discord_def app_get_def Let_def)
    next
      case (Some r)
      with Pair assms show ?thesis
        by (auto simp: route_api_discord_def app_get_def)
    qed
  qed
  have other: "cache_after (route_api_discord_idusername p apiKey key c) = c"
    by (simp add: route_api_discord_idusername_def app_get_def get_api_discord_idusername_def
        Let_def split: prod.splits option.splits)
  show ?thesis
    using iff shape fields route other reaches_cacheTime [OF assms] by blast
qed

theorem cache_pair_invariant_witness:
  "reaches [(1000, [user_json example_row])]
     \<lparr>data = Some [user_json example_row], timestamp = Some 1000, cacheTime = 300000\<rparr> \<and>
   (\<exists>log'. reaches log' (cache_after (route_api_discord example_pool (Some ''secret'') 400000
      \<lparr>data = Some [user_json example_row], timestamp = Some 1000, cacheTime = 300000\<rparr>)))"
  using example_refresh_reaches [of 1000]
    cache_pair_invariant [OF example_refresh_reaches [of 1000], of example_pool "Some ''secret''" 400000]
  by blast

section \<open>The claims about the API key\<close>

lemma select_apikey_cases:
  "select_apikey p key =
     (case failure p (SelectApiKey key) of
        Some msg \<Rightarrow> Rejected msg
      | None \<Rightarrow> Resolved (filter (\<lambda>k. k = key) (apikeys p)))"
  by (simp add: select_apikey_def pool_query_def)

lemma authenticateApiKey_missing:
  "apiKey = None \<or> apiKey = Some [] \<Longrightarrow>
     authenticateApiKey p apiKey = (Some (res_status_json 401 (Error ''API key is required'')), [])"
  by (auto simp: authenticateApiKey_def truthy_string_def)

lemma authenticateApiKey_supplied:
  "key \<noteq> [] \<Longrightarrow>
     authenticateApiKey p (Some key) =
       (case failure p (SelectApiKey key) of
          Some msg \<Rightarrow>
            (Some (res_status_json 500 (Error ''Authentication error'')), [SelectApiKey key])
        | None \<Rightarrow>
            (if key \<in> set (apikeys p) then (None, [SelectApiKey key])
             else (Some (res_status_json 401 (Error ''Invalid API key'')), [SelectApiKey key])))"
  by (auto simp: authenticateApiKey_def truthy_string_def select_apikey_cases filter_empty_conv
      split: option.splits)

lemma app_get_missing:
  "apiKey = None \<or> apiKey = Some [] \<Longrightarrow>
     app_get p apiKey handler c =
       \<lparr>sent = res_status_json 401 (Error ''API key is required''), cache_after = c, issued = []\<rparr>"
  by (simp add: app_get_def authenticateApiKey_missing)

lemma app_get_invalid:
  "key \<noteq> [] \<Longrightarrow> failure p (SelectApiKey key) = None \<Longrightarrow> key \<notin> set (apikeys p) \<Longrightarrow>
     app_get p (Some key) handler c =
       \<lparr>sent = res_status_json 401 (Error ''Invalid API key''), cache_after = c,
        issued = [SelectApiKey key]\<rparr>"
  by (simp add: app_get_def authenticateApiKey_supplied)

lemma app_get_rejected:
  "key \<noteq> [] \<Longrightarrow> failure p (SelectApiKey key) = Some msg \<Longrightarrow>
     app_get p (Some key) handler c =
       \<lparr>sent = res_status_json 500 (Error ''Authentication error''), cache_after = c,
        issued = [SelectApiKey key]\<rparr>"
  by (simp add: app_get_def authenticateApiKey_supplied)

lemma app_get_found:
  "key \<noteq> [] \<Longrightarrow> failure p (SelectApiKey key) = None \<Longrightarrow> key \<in> set (apikeys p) \<Longrightarrow>
     app_get p (Some key) handler c =
       \<lparr>sent = sent (handler c), cache_after = cache_after (handler c),
        issued = SelectApiKey key # issued (handler c)\<rparr>"
  by (simp add: app_get_def authenticateApiKey_supplied Let_def)

lemma app_get_refused:
  assumes nf: "\<not> (\<exists>k. apiKey = Some k \<and> k \<noteq> [] \<and> failure p (SelectApiKey k) = None \<and>
      k \<in> set (apikeys p))"
  shows "app_get p apiKey handler c = app_get p apiKey handler' c \<and>
         cache_after (app_get p apiKey handler c) = c \<and>
         set (issued (app_get p apiKey handler c)) \<subseteq> range SelectApiKey \<and>
         status (sent (app_get p apiKey handler c)) \<in> {401, 500}"
proof (cases "apiKey = None \<or> apiKey = Some []")
  case True
  then show ?thesis
    by (simp add: app_get_missing res_status_json_def)
next
  case False
  then obtain k where k: "apiKey = Some k" "k \<noteq> []" by auto
  show ?thesis
  proof (cases "failure p (SelectApiKey k)")
    case None
    with nf k have "k \<notin> set (apikeys p)" by simp
    with None k show ?thesis
      by (simp add: app_get_invalid res_status_json_def)
  next
    case (Some m)
    with k show ?thesis
      by (simp add: app_get_rejected res_status_json_def)
  qed
qed

text \<open>
  C8. For every route registered behind \<open>authenticateApiKey\<close>, whatever its handler: with
  the header missing (or empty) the response is 401, no statement is issued and the
  cache is as before; with a key that the table does not hold the response is 401; when
  the key check itself is rejected the response is 500; with a key the table holds the
  handler runs after the key check and its outcome is the outcome of the request. When
  the key is not found the outcome does not depend on the handler, the cache is
  unchanged and nothing but the key check is issued.
\<close>

theorem api_key_gate:
  "(apiKey = None \<or> apiKey = Some [] \<longrightarrow>
      app_get p apiKey handler c =
        \<lparr>sent = res_status_json 401 (Error ''API key is required''), cache_after = c, issued = []\<rparr>) \<and>
   (key \<noteq> [] \<and> failure p (SelectApiKey key) = None \<and> key \<notin> set (apikeys p) \<longrightarrow>
      app_get p (Some key) handler c =
        \<lparr>sent = res_status_json 401 (Error ''Invalid API key''), cache_after = c,
         issued = [SelectApiKey key]\<rparr>) \<and>
   (key \<noteq> [] \<and> failure p (SelectApiKey key) = Some msg \<longrightarrow>
      app_get p (Some key) handler c =
        \<lparr>sent = res_status_json 500 (Error ''Authentication error''), cache_after = c,
         issued = [SelectApiKey key]\<rparr>) \<and>
   (key \<noteq> [] \<and> failure p (SelectApiKey key) = None \<and> key \<in> set (apikeys p) \<longrightarrow>
      app_get p (Some key) handler c =
        \<lparr>sent = sent (handler c), cache_after = cache_after (handler c),
         issued = SelectApiKey key # issued (handler c)\<rparr>) \<and>
   (\<not> (\<exists>k. apiKey = Some k \<and> k \<noteq> [] \<and> failure p (SelectApiKey k) = None \<and>
         k \<in> set (apikeys p)) \<longrightarrow>
      app_get p apiKey handler c = app_get p apiKey handler' c \<and>
      cache_after (app_get p apiKey handler c) = c \<and>
      set (issued (app_get p apiKey handler c)) \<subseteq> range SelectApiKey \<and>
      status (sent (app_get p apiKey handler c)) \<in> {401, 500}) \<and>
   route_api_discord p apiKey now c = app_get p apiKey (get_api_discord p now) c \<and>
   route_api_discord_idusername p apiKey idusername c =
     app_get p apiKey (get_api_discord_idusername p idusername) c"
  using app_get_missing [of apiKey p handler c] app_get_invalid [of key p handler c]
    app_get_rejected [of key p msg handler c] app_get_found [of key p handler c]
    app_get_refused [of apiKey p handler c handler']
    route_api_discord_def [of p apiKey now c]
    route_api_discord_idusername_def [of p apiKey idusername c]
  by blast

theorem api_key_gate_witness:
  "route_api_discord example_pool None 1000 cache_init =
     \<lparr>sent = res_status_json 401 (Error ''API key is required''), cache_after = cache_init,
      issued = []\<rparr> \<and>
   route_api_discord example_pool (Some ''guess'') 1000 cache_init =
     \<lparr>sent = res_status_json 401 (Error ''Invalid API key''), cache_after = cache_init,
      issued = [SelectApiKey ''guess'']\<rparr> \<and>
   route_api_discord unreachable_pool (Some ''secret'') 1000 cache_init =
     \<lparr>sent = res_status_json 500 (Error ''Authentication error''), cache_after = cache_init,
      issued = [SelectApiKey ''secret'']\<rparr> \<and>
   issued (route_api_discord example_pool (Some ''secret'') 1000 cache_init) =
     [SelectApiKey ''secret'', SelectListing]"
proof -
  have f: "failure example_pool (SelectApiKey k) = None" for k
    by (simp add: example_pool_def)
  have u: "failure unreachable_pool (SelectApiKey ''secret'') = Some ''connection terminated''"
    by (simp add: unreachable_pool_def)
  have keys: "''guess'' \<notin> set (apikeys example_pool) \<and> ''secret'' \<in> set (apikeys example_pool)"
    by (simp add: example_pool_def)
  have miss: "issued (get_api_discord example_pool 1000 cache_init) = [SelectListing]"
    by (simp add: get_api_discord_miss_issued cache_get_None_iff cache_init_def)
  show ?thesis
    using f u keys miss
      api_key_gate [of None example_pool "get_api_discord example_pool 1000" cache_init
        "''guess''" "''x''" "get_api_discord example_pool 1000" 1000 "''1''"]
      api_key_gate [of None unreachable_pool "get_api_discord unreachable_pool 1000" cache_init
        "''secret''" "''connection terminated''" "get_api_discord unreachable_pool 1000" 1000 "''1''"]
      api_key_gate [of None example_pool "get_api_discord example_pool 1000" cache_init
        "''secret''" "''x''" "get_api_discord example_pool 1000" 1000 "''1''"]
    by (simp add: route_api_discord_def)
qed

section \<open>The claims about the rows and the lookup\<close>

lemma split_from_not_Nil: "split_from sep piece s \<noteq> []"
proof (induction sep piece s rule: split_from.induct)
  case (1 sep piece s)
  then show ?case
    by (subst split_from.simps) auto
qed

lemma join_Cons: "xs \<noteq> [] \<Longrightarrow> join (x # xs) sep = x @ sep @ join xs sep"
  by (cases xs) simp_all

lemma join_split_from: "sep \<noteq> [] \<Longrightarrow> join (split_from sep piece s) sep = piece @ s"
proof (induction sep piece s rule: split_from.induct)
  case (1 sep piece s)
  show ?case
  proof (cases "s = []")
    case True
    then show ?thesis by (subst split_from.simps) simp
  next
    case False
    show ?thesis
    proof (cases "take (length sep) s = sep")
      case True
      have "join (split_from sep [] (drop (length sep) s)) sep = drop (length sep) s"
        using "1.IH"(1) [OF False _ "1.prems"] True "1.prems" by simp
      moreover have "sep @ drop (length sep) s = s"
        using True by (metis append_take_drop_id)
      ultimately show ?thesis
        using False True "1.prems"
        by (subst split_from.simps) (simp add: join_Cons split_from_not_Nil)
    next
      case neq: False
      have "join (split_from sep (piece @ [hd s]) (tl s)) sep = (piece @ [hd s]) @ tl s"
        using "1.IH"(2) [OF False _ "1.prems"] neq by simp
      then show ?thesis
        using False neq by (subst split_from.simps) simp
    qed
  qed
qed

lemma join_split: "sep \<noteq> [] \<Longrightarrow> join (split s sep) sep = s"
  by (simp add: split_def join_split_from)

text \<open>
  An occurrence of the separator in a string, by position and by decomposition.
\<close>

lemma occurs_iff:
  "(\<exists>i. take (length sep) (drop i x) = sep) = (\<exists>pre post. x = pre @ sep @ post)"
proof
  assume "\<exists>i. take (length sep) (drop i x) = sep"
  then obtain i where i: "take (length sep) (drop i x) = sep" ..
  have "x = take i x @ drop i x" by simp
  also have "drop i x = take (length sep) (drop i x) @ drop (length sep) (drop i x)"
    by (rule append_take_drop_id [symmetric])
  finally have "x = take i x @ sep @ drop (length sep) (drop i x)"
    using i by simp
  then show "\<exists>pre post. x = pre @ sep @ post" by blast
next
  assume "\<exists>pre post. x = pre @ sep @ post"
  then obtain pre post where "x = pre @ sep @ post" by blast
  then have "take (length sep) (drop (length pre) x) = sep" by simp
  then show "\<exists>i. take (length sep) (drop i x) = sep" ..
qed

text \<open>
  While no occurrence of the separator starts in the piece being read, no piece of the
  result holds the separator.
\<close>

lemma split_from_pieces:
  assumes "sep \<noteq> []"
    and "\<forall>i < length piece. take (length sep) (drop i (piece @ s)) \<noteq> sep"
  shows "\<forall>x \<in> set (split_from sep piece s). \<forall>i. take (length sep) (drop i x) \<noteq> sep"
  using assms
proof (induction sep piece s rule: split_from.induct)
  case (1 sep piece s)
  have sep: "sep \<noteq> []" by (rule "1.prems"(1))
  have inv: "\<forall>i < length piece. take (length sep) (drop i (piece @ s)) \<noteq> sep"
    by (rule "1.prems"(2))
  have piece: "take (length sep) (drop i piece) \<noteq> sep" for i
  proof (cases "i < length piece")
    case True
    show ?thesis
    proof
      assume eq: "take (length sep) (drop i piece) = sep"
      then have "length sep \<le> length (drop i piece)"
        by (metis length_take min.cobounded1)
      then have "take (length sep) (drop i (piece @ s)) = take (length sep) (drop i piece)"
        using True by simp
      then have "take (length sep) (drop i (piece @ s)) = sep"
        using eq by (rule trans)
      moreover have "take (length sep) (drop i (piece @ s)) \<noteq> sep"
        using inv True by blast
      ultimately show False by (rule notE [rotated])
    qed
  next
    case False
    then show ?thesis using sep by auto
  qed
  show ?case
  proof (cases "s = []")
    case True
    then show ?thesis
      using piece by (subst split_from.simps) simp
  next
    case False
    show ?thesis
    proof (cases "take (length sep) s = sep")
      case True
      have "\<forall>x \<in> set (split_from sep [] (drop (length sep) s)).
          \<forall>i. take (length sep) (drop i x) \<noteq> sep"
        using "1.IH"(1) [OF False _ sep] True sep by simp
      then show ?thesis
        using False True sep piece by (subst split_from.simps) simp
    next
      case neq: False
      have "\<forall>i < length (piece @ [hd s]). take (length sep) (drop i ((piece @ [hd s]) @ tl s)) \<noteq> sep"
      proof (intro allI impI)
        fix i
        assume "i < length (piece @ [hd s])"
        then have "i < length piece \<or> i = length piece" by auto
        then show "take (length sep) (drop i ((piece @ [hd s]) @ tl s)) \<noteq> sep"
        proof
          assume "i < length piece"
          with inv False show ?thesis by simp
        next
          assume "i = length piece"
          with neq False show ?thesis by simp
        qed
      qed
      then have "\<forall>x \<in> set (split_from sep (piece @ [hd s]) (tl s)).
          \<forall>i. take (length sep) (drop i x) \<noteq> sep"
        using "1.IH"(2) [OF False _ sep] neq by simp
      then show ?thesis
        using False neq by (subst split_from.simps) simp
    qed
  qed
qed

lemma split_labels:
  assumes "sep \<noteq> []" and "x \<in> set (split s sep)"
  shows "\<not> (\<exists>pre post. x = pre @ sep @ post)"
proof -
  have "\<forall>x \<in> set (split_from sep [] s). \<forall>i. take (length sep) (drop i x) \<noteq> sep"
    using assms(1) by (rule split_from_pieces) simp
  with assms have "\<not> (\<exists>i. take (length sep) (drop i x) = sep)"
    by (simp add: split_def)
  then show ?thesis unfolding occurs_iff .
qed

text \<open>A string without the separator is one piece.\<close>

lemma split_from_whole:
  assumes "sep \<noteq> []" and "\<forall>i. take (length sep) (drop i s) \<noteq> sep"
  shows "split_from sep piece s = [piece @ s]"
  using assms
proof (induction sep piece s rule: split_from.induct)
  case (1 sep piece s)
  show ?case
  proof (cases "s = []")
    case True
    then show ?thesis by (subst split_from.simps) simp
  next
    case False
    have neq: "take (length sep) s \<noteq> sep"
      using "1.prems"(2) [THEN spec, of 0] by simp
    have "\<forall>i. take (length sep) (drop i (tl s)) \<noteq> sep"
    proof
      fix i
      have "drop i (tl s) = drop (Suc i) s" by (simp add: drop_Suc)
      with "1.prems"(2) show "take (length sep) (drop i (tl s)) \<noteq> sep" by simp
    qed
    then have "split_from sep (piece @ [hd s]) (tl s) = [(piece @ [hd s]) @ tl s]"
      using "1.IH"(2) [OF False _ "1.prems"(1)] neq by simp
    then show ?thesis
      using False neq by (subst split_from.simps) simp
  qed
qed

text \<open>
  The first piece ends at the first occurrence of the separator, and the rest is split
  in the same way.
\<close>

lemma split_from_first:
  assumes "sep \<noteq> []"
    and "\<forall>i < length a. take (length sep) (drop i (a @ sep @ b)) \<noteq> sep"
  shows "split_from sep piece (a @ sep @ b) = (piece @ a) # split_from sep [] b"
  using assms
proof (induction a arbitrary: piece)
  case Nil
  then show ?case
    by (subst split_from.simps) simp
next
  case (Cons c a)
  have neq: "take (length sep) ((c # a) @ sep @ b) \<noteq> sep"
    using Cons.prems(2) [THEN spec, of 0] by simp
  have "\<forall>i < length a. take (length sep) (drop i (a @ sep @ b)) \<noteq> sep"
  proof (intro allI impI)
    fix i
    assume "i < length a"
    then have "Suc i < length (c # a)" by simp
    with Cons.prems(2) have "take (length sep) (drop (Suc i) ((c # a) @ sep @ b)) \<noteq> sep"
      by blast
    then show "take (length sep) (drop i (a @ sep @ b)) \<noteq> sep" by simp
  qed
  then have "split_from sep (piece @ [c]) (a @ sep @ b) = ((piece @ [c]) @ a) # split_from sep [] b"
    using Cons.prems(1) by (rule Cons.IH [rotated])
  then show ?case
    using neq by (subst split_from.simps) simp
qed

text \<open>
  Before the first \<open>", "\<close> of a string no other one starts: it would lie in the part
  before, or end on the comma of the first.
\<close>

lemma comma_space_first:
  assumes "\<not> (\<exists>pre post. a = pre @ '', '' @ post)" and "i < length a"
  shows "take (length '', '') (drop i (a @ '', '' @ b)) \<noteq> '', ''"
proof
  assume eq: "take (length '', '') (drop i (a @ '', '' @ b)) = '', ''"
  obtain c d where d: "drop i a = c # d"
    using assms(2) by (cases "drop i a") auto
  have whole: "drop i (a @ '', '' @ b) = c # d @ '', '' @ b"
    using assms(2) d by simp
  have eq': "take (length '', '') (c # d @ '', '' @ b) = '', ''"
    using eq unfolding whole .
  show False
  proof (cases d)
    case Nil
    with eq' show False by simp
  next
    case (Cons c' d')
    with eq' have "c # c' # [] = '', ''" by simp
    then have "drop i a = '', '' @ d'" using d Cons by simp
    then have "a = take i a @ '', '' @ d'"
      by (metis append_take_drop_id)
    with assms(1) show False by blast
  qed
qed

lemma roles_of_whole:
  assumes "s \<noteq> []" and "\<not> (\<exists>pre post. s = pre @ '', '' @ post)"
  shows "roles_of (Some s) = [s]"
proof -
  have "\<forall>i. take (length '', '') (drop i s) \<noteq> '', ''"
    using assms(2) occurs_iff [of "'', ''" s] by blast
  then have "split_from '', '' [] s = [[] @ s]"
    by (rule split_from_whole [rotated]) simp
  then show ?thesis
    using assms(1) by (simp add: roles_of_def truthy_string_def split_def)
qed

lemma roles_of_first:
  assumes "\<not> (\<exists>pre post. a = pre @ '', '' @ post)"
  shows "roles_of (Some (a @ '', '' @ b)) = a # (if b = [] then [[]] else roles_of (Some b))"
proof -
  have "\<forall>i < length a. take (length '', '') (drop i (a @ '', '' @ b)) \<noteq> '', ''"
    using assms comma_space_first by blast
  then have "split_from '', '' [] (a @ '', '' @ b) = ([] @ a) # split_from '', '' [] b"
    by (rule split_from_first [rotated]) simp
  moreover have "split_from '', '' [] [] = [[]]"
    by (subst split_from.simps) simp
  ultimately show ?thesis
    by (simp add: roles_of_def truthy_string_def split_def)
qed

lemma roles_of_labels:
  assumes "label \<in> set (roles_of r)"
  shows "\<not> (\<exists>pre post. label = pre @ '', '' @ post)"
proof (cases r)
  case None
  with assms show ?thesis by (simp add: roles_of_def truthy_string_def)
next
  case (Some s)
  show ?thesis
  proof (cases "s = []")
    case True
    with assms Some show ?thesis by (simp add: roles_of_def truthy_string_def)
  next
    case False
    with assms Some have "label \<in> set (split s '', '')"
      by (simp add: roles_of_def truthy_string_def)
    then show ?thesis
      by (rule split_labels [rotated]) simp
  qed
qed

lemma roles_of_falsy: "roles_of None = [] \<and> roles_of (Some []) = []"
  by (simp add: roles_of_def truthy_string_def)

lemma roles_of_truthy: "s \<noteq> [] \<Longrightarrow> roles_of (Some s) = split s '', ''"
  by (simp add: roles_of_def truthy_string_def)

lemma roles_of_not_empty_label: "roles_of r \<noteq> [[]]"
proof
  assume e: "roles_of r = [[]]"
  then obtain s where s: "r = Some s" "s \<noteq> []"
    by (cases r) (auto simp: roles_of_def truthy_string_def split: if_splits)
  with e have "split s '', '' = [[]]" by (simp add: roles_of_truthy)
  then have "join (split s '', '') '', '' = []" by simp
  then show False using s by (simp add: join_split)
qed

lemma example_lookup: "select_user example_pool ''ann'' = Resolved [example_row]"
  by (simp add: select_user_def pool_query_def example_pool_def lookup_rows_def
      example_row_def example_old_row_def order_by_def row_before_def)

lemma comma_free:
  assumes "CHR '','' \<notin> set a"
  shows "\<not> (\<exists>pre post. a = pre @ '', '' @ post)"
  using assms by auto

lemma roles_of_A_B: "roles_of (Some ''A, B'') = [''A'', ''B'']"
  by (simp add: roles_of_truthy split_def split_from.simps)

lemma roles_of_join: "s \<noteq> [] \<Longrightarrow> join (roles_of (Some s)) '', '' = s"
  by (simp add: roles_of_truthy join_split)

lemma get_api_discord_rows:
  "cache_get c now = None \<and> select_listing p = Resolved rows \<Longrightarrow>
     sent (get_api_discord p now c) = res_json (Users (map user_json rows))"
  by (simp add: get_api_discord_miss refresh_Resolved)

lemma get_api_discord_idusername_row:
  "select_user p key = Resolved (user # rest) \<Longrightarrow>
     sent (get_api_discord_idusername p key c) = res_json (User (user_json user))"
  by (simp add: get_api_discord_idusername_def)

text \<open>
  C4. The role string of a row is decomposed at every occurrence of the separator
  \<open>", "\<close>, read from the left: a non-empty role string without the separator is one
  label; a role string \<open>a, b\<close> whose part \<open>a\<close> is without the separator has \<open>a\<close> as its
  first label, followed by the labels of \<open>b\<close> (the one empty label when \<open>b\<close> is empty);
  no label of any row contains the separator. So \<open>"A, B"\<close> gives the two labels \<open>A\<close> and
  \<open>B\<close>, an absent and an empty role string give the empty collection, and no role
  string gives the collection whose only label is the empty string; joining the labels
  of a non-empty role string with the separator gives the string back. The member sent
  for a row has these labels as its roles, and both the listing and the single-record
  handler send rows decomposed this way.
\<close>

theorem role_decomposition:
  "roles_of (Some ''A, B'') = [''A'', ''B''] \<and>
   roles_of None = [] \<and>
   roles_of (Some '''') = [] \<and>
   roles_of r \<noteq> [''''] \<and>
   (s \<noteq> [] \<longrightarrow> join (roles_of (Some s)) '', '' = s) \<and>
   (w \<noteq> [] \<and> \<not> (\<exists>pre post. w = pre @ '', '' @ post) \<longrightarrow> roles_of (Some w) = [w]) \<and>
   (\<not> (\<exists>pre post. a = pre @ '', '' @ post) \<longrightarrow>
      roles_of (Some (a @ '', '' @ b)) = a # (if b = [] then [''''] else roles_of (Some b))) \<and>
   (\<forall>label \<in> set (roles_of r). \<not> (\<exists>pre post. label = pre @ '', '' @ post)) \<and>
   roles (user_json user) = roles_of (roles_col user) \<and>
   (cache_get c now = None \<and> select_listing p = Resolved rows \<longrightarrow>
      sent (get_api_discord p now c) = res_json (Users (map user_json rows))) \<and>
   (select_user p key = Resolved (user # rest) \<longrightarrow>
      sent (get_api_discord_idusername p key c) = res_json (User (user_json user)))"
proof (intro conjI impI ballI)
  show "roles_of (Some ''A, B'') = [''A'', ''B'']"
    by (rule roles_of_A_B)
  show "roles_of None = []"
    by (rule roles_of_falsy [THEN conjunct1])
  show "roles_of (Some '''') = []"
    by (rule roles_of_falsy [THEN conjunct2])
  show "roles_of r \<noteq> ['''']"
    by (rule roles_of_not_empty_label)
  show "join (roles_of (Some s)) '', '' = s" if "s \<noteq> []"
    using that by (rule roles_of_join)
  show "roles_of (Some w) = [w]" if "w \<noteq> [] \<and> \<not> (\<exists>pre post. w = pre @ '', '' @ post)"
    using that by (intro roles_of_whole) simp_all
  show "roles_of (Some (a @ '', '' @ b)) = a # (if b = [] then [''''] else roles_of (Some b))"
    if "\<not> (\<exists>pre post. a = pre @ '', '' @ post)"
    using that by (rule roles_of_first)
  show "\<not> (\<exists>pre post. label = pre @ '', '' @ post)" if "label \<in> set (roles_of r)" for label
    using that by (rule roles_of_labels)
  show "roles (user_json user) = roles_of (roles_col user)"
    by (simp add: user_json_def)
  show "sent (get_api_discord p now c) = res_json (Users (map user_json rows))"
    if "cache_get c now = None \<and> select_listing p = Resolved rows"
    using that by (rule get_api_discord_rows)
  show "sent (get_api_discord_idusername p key c) = res_json (User (user_json user))"
    if "select_user p key = Resolved (user # rest)"
    using that by (rule get_api_discord_idusername_row)
qed

theorem role_decomposition_witness:
  "roles_of (Some ''Mod, Core, OG'') = [''Mod'', ''Core'', ''OG''] \<and>
   join (roles_of (Some ''Mod, Core, OG'')) '', '' = ''Mod, Core, OG'' \<and>
   sent (get_api_discord example_pool 1000 cache_init) =
     res_json (Users
       [\<lparr>discordid = ''1'', username = Some ''ann'', roles = [''A'', ''B'']\<rparr>]) \<and>
   sent (get_api_discord_idusername example_pool ''ann'' cache_init) =
     res_json (User \<lparr>discordid = ''1'', username = Some ''ann'', roles = [''A'', ''B'']\<rparr>)"
proof -
  note first = role_decomposition [where r = "Some ''Mod, Core, OG''" and s = "''Mod, Core, OG''"
      and w = "''OG''" and a = "''Mod''" and b = "''Core, OG''" and user = example_row
      and c = cache_init and now = 1000 and p = example_pool and rows = "[example_row]"
      and key = "''ann''" and rest = "[]"]
  note second = role_decomposition [where r = "Some ''Mod, Core, OG''" and s = "''Mod, Core, OG''"
      and w = "''OG''" and a = "''Core''" and b = "''OG''" and user = example_row
      and c = cache_init and now = 1000 and p = example_pool and rows = "[example_row]"
      and key = "''ann''" and rest = "[]"]
  have miss: "cache_get cache_init 1000 = None"
    by (simp add: cache_get_None_iff cache_init_def)
  have Mod: "\<not> (\<exists>pre post. ''Mod'' = pre @ '', '' @ post)"
    by (rule comma_free) simp
  have Core: "\<not> (\<exists>pre post. ''Core'' = pre @ '', '' @ post)"
    by (rule comma_free) simp
  have OG: "\<not> (\<exists>pre post. ''OG'' = pre @ '', '' @ post)"
    by (rule comma_free) simp
  have "\<not> (\<exists>pre post. ''Mod'' = pre @ '', '' @ post) \<longrightarrow>
      roles_of (Some (''Mod'' @ '', '' @ ''Core, OG'')) =
        ''Mod'' # (if ''Core, OG'' = [] then [''''] else roles_of (Some ''Core, OG''))"
    using first by (elim conjE)
  with Mod have l1: "roles_of (Some ''Mod, Core, OG'') = ''Mod'' # roles_of (Some ''Core, OG'')"
    by simp
  have "\<not> (\<exists>pre post. ''Core'' = pre @ '', '' @ post) \<longrightarrow>
      roles_of (Some (''Core'' @ '', '' @ ''OG'')) =
        ''Core'' # (if ''OG'' = [] then [''''] else roles_of (Some ''OG''))"
    using second by (elim conjE)
  with Core have l2: "roles_of (Some ''Core, OG'') = ''Core'' # roles_of (Some ''OG'')"
    by simp
  have "''OG'' \<noteq> [] \<and> \<not> (\<exists>pre post. ''OG'' = pre @ '', '' @ post) \<longrightarrow>
      roles_of (Some ''OG'') = [''OG'']"
    using first by (elim conjE)
  with OG have l3: "roles_of (Some ''OG'') = [''OG'']"
    by simp
  have labels: "roles_of (Some ''Mod, Core, OG'') = [''Mod'', ''Core'', ''OG'']"
    by (simp only: l1 l2 l3)
  have "''Mod, Core, OG'' \<noteq> [] \<longrightarrow>
      join (roles_of (Some ''Mod, Core, OG'')) '', '' = ''Mod, Core, OG''"
    using first by (elim conjE)
  then have joined: "join (roles_of (Some ''Mod, Core, OG'')) '', '' = ''Mod, Core, OG''"
    by simp
  have "roles (user_json example_row) = roles_of (roles_col example_row)"
    using first by (elim conjE)
  moreover have "roles_of (Some ''A, B'') = [''A'', ''B'']"
    using first by (elim conjE)
  ultimately have u: "user_json example_row =
      \<lparr>discordid = ''1'', username = Some ''ann'', roles = [''A'', ''B'']\<rparr>"
    by (simp add: user_json_def example_row_def)
  have "cache_get cache_init 1000 = None \<and> select_listing example_pool = Resolved [example_row] \<longrightarrow>
      sent (get_api_discord example_pool 1000 cache_init) =
        res_json (Users (map user_json [example_row]))"
    using first by (elim conjE)
  with miss example_listing u have listing: "sent (get_api_discord example_pool 1000 cache_init) =
      res_json (Users [\<lparr>discordid = ''1'', username = Some ''ann'', roles = [''A'', ''B'']\<rparr>])"
    by simp
  have "select_user example_pool ''ann'' = Resolved (example_row # []) \<longrightarrow>
      sent (get_api_discord_idusername example_pool ''ann'' cache_init) =
        res_json (User (user_json example_row))"
    using first by (elim conjE)
  with example_lookup u have lookup: "sent (get_api_discord_idusername example_pool ''ann'' cache_init) =
      res_json (User \<lparr>discordid = ''1'', username = Some ''ann'', roles = [''A'', ''B'']\<rparr>)"
    by simp
  show ?thesis
    using labels joined listing lookup by (intro conjI)
qed

section \<open>Facts about the two statements on \<open>channel_activity\<close>\<close>












text \<open>The sort: the same rows, in order.\<close>

lemma insert_by_not_Nil: "insert_by before x ys \<noteq> []"
  by (cases ys) simp_all



lemma order_by_Nil_iff: "(order_by before xs = []) = (xs = [])"
  by (cases xs) (simp_all add: order_by_def insert_by_not_Nil)




text \<open>\<open>DISTINCT ON\<close>: a row of every key, the first of the rows with its key.\<close>

lemma distinct_on_Nil_iff: "(distinct_on k xs = []) = (xs = [])"
  by (induction k xs rule: distinct_on.induct) auto












lemma lookup_rows_Nil_iff:
  "(lookup_rows le tbl key = []) =
     (\<not> (\<exists>r \<in> set tbl. on_server r \<and> (user_id r = key \<or> username_col r = Some key)))"
proof -
  have "(lookup_rows le tbl key = []) =
      (filter (\<lambda>r. on_server r \<and> (user_id r = key \<or> username_col r = Some key)) tbl = [])"
    by (simp add: lookup_rows_def distinct_on_Nil_iff order_by_Nil_iff)
  then show ?thesis
    by (simp add: filter_empty_conv)
qed




lemma select_user_cases:
  "select_user p key =
     (case failure p (SelectUser key) of
        Some msg \<Rightarrow> Rejected msg
      | None \<Rightarrow> Resolved (lookup_rows (collation p) (channel_activity p) key))"
  by (simp add: select_user_def pool_query_def)


lemma select_user_store:
  "((select_user p key = Rejected msg) = (failure p (SelectUser key) = Some msg)) \<and>
   (failure p (SelectUser key) = None \<longrightarrow>
      (select_user p key = Resolved []) =
        (\<not> (\<exists>r \<in> set (channel_activity p).
              on_server r \<and> (user_id r = key \<or> username_col r = Some key))))"
proof (cases "failure p (SelectUser key)")
  case None
  then show ?thesis
    by (simp add: select_user_cases lookup_rows_Nil_iff)
next
  case (Some m)
  then show ?thesis
    by (simp add: select_user_cases)
qed

lemma idusername_Resolved_Cons:
  "select_user p key = Resolved (user # rest) \<Longrightarrow>
     sent (get_api_discord_idusername p key c) = res_json (User (user_json user))"
  by (simp add: get_api_discord_idusername_def)

lemma idusername_Resolved_Nil:
  "select_user p key = Resolved [] \<Longrightarrow>
     sent (get_api_discord_idusername p key c) = res_status_json 404 (Error ''User not found'')"
  by (simp add: get_api_discord_idusername_def)

lemma idusername_Rejected:
  "select_user p key = Rejected msg \<Longrightarrow>
     sent (get_api_discord_idusername p key c) =
       res_status_json 500 (Error ''Failed to fetch user'')"
  by (simp add: get_api_discord_idusername_def)

lemma idusername_effects:
  "cache_after (get_api_discord_idusername p key c) = c \<and>
   issued (get_api_discord_idusername p key c) = [SelectUser key]"
  by (simp add: get_api_discord_idusername_def)

lemma idusername_status:
  "((status (sent (get_api_discord_idusername p key c)) = 200) =
      (\<exists>user rest. select_user p key = Resolved (user # rest))) \<and>
   ((status (sent (get_api_discord_idusername p key c)) = 404) =
      (select_user p key = Resolved [])) \<and>
   ((status (sent (get_api_discord_idusername p key c)) = 500) =
      (\<exists>msg. select_user p key = Rejected msg))"
proof (cases "select_user p key")
  case (Resolved rows)
  show ?thesis
  proof (cases rows)
    case Nil
    with Resolved show ?thesis
      by (simp add: idusername_Resolved_Nil res_status_json_def)
  next
    case (Cons user rest)
    with Resolved show ?thesis
      by (simp add: idusername_Resolved_Cons res_json_def)
  qed
next
  case (Rejected m)
  then show ?thesis
    by (simp add: idusername_Rejected res_status_json_def)
qed

text \<open>
  C7. The single-record handler answers 200 with the record built from the first row
  exactly when the lookup resolves with at least one row, 404 not-found exactly when it
  resolves with no row, which is when no on-server row matches the key by identity or
  by name, and 500 exactly when the lookup is rejected; it issues the one lookup and
  leaves the cache alone.
\<close>

theorem lookup_status:
  "((status (sent (get_api_discord_idusername p key c)) = 200) =
      (\<exists>user rest. select_user p key = Resolved (user # rest))) \<and>
   ((status (sent (get_api_discord_idusername p key c)) = 404) =
      (select_user p key = Resolved [])) \<and>
   ((status (sent (get_api_discord_idusername p key c)) = 500) =
      (\<exists>msg. select_user p key = Rejected msg)) \<and>
   (select_user p key = Resolved (user # rest) \<longrightarrow>
      sent (get_api_discord_idusername p key c) = res_json (User (user_json user))) \<and>
   (select_user p key = Resolved [] \<longrightarrow>
      sent (get_api_discord_idusername p key c) = res_status_json 404 (Error ''User not found'')) \<and>
   (select_user p key = Rejected msg \<longrightarrow>
      sent (get_api_discord_idusername p key c) =
        res_status_json 500 (Error ''Failed to fetch user'')) \<and>
   ((select_user p key = Rejected msg) = (failure p (SelectUser key) = Some msg)) \<and>
   (failure p (SelectUser key) = None \<longrightarrow>
      (select_user p key = Resolved []) =
        (\<not> (\<exists>r \<in> set (channel_activity p).
              on_server r \<and> (user_id r = key \<or> username_col r = Some key)))) \<and>
   cache_after (get_api_discord_idusername p key c) = c \<and>
   issued (get_api_discord_idusername p key c) = [SelectUser key]"
proof (intro conjI impI)
  show "(status (sent (get_api_discord_idusername p key c)) = 200) =
      (\<exists>user rest. select_user p key = Resolved (user # rest))"
    using idusername_status [of p key c] by (rule conjunct1)
  show "(status (sent (get_api_discord_idusername p key c)) = 404) =
      (select_user p key = Resolved [])"
    using idusername_status [of p key c] by (elim conjE)
  show "(status (sent (get_api_discord_idusername p key c)) = 500) =
      (\<exists>msg. select_user p key = Rejected msg)"
    using idusername_status [of p key c] by (elim conjE)
  show "sent (get_api_discord_idusername p key c) = res_json (User (user_json user))"
    if "select_user p key = Resolved (user # rest)"
    using that by (rule idusername_Resolved_Cons)
  show "sent (get_api_discord_idusername p key c) = res_status_json 404 (Error ''User not found'')"
    if "select_user p key = Resolved []"
    using that by (rule idusername_Resolved_Nil)
  show "sent (get_api_discord_idusername p key c) =
        res_status_json 500 (Error ''Failed to fetch user'')"
    if "select_user p key = Rejected msg"
    using that by (rule idusername_Rejected)
  show "(select_user p key = Rejected msg) = (failure p (SelectUser key) = Some msg)"
    using select_user_store [of p key msg] by (rule conjunct1)
  show "(select_user p key = Resolved []) =
        (\<not> (\<exists>r \<in> set (channel_activity p).
              on_server r \<and> (user_id r = key \<or> username_col r = Some key)))"
    if "failure p (SelectUser key) = None"
    using select_user_store [of p key msg] that by (elim conjE impE)
  show "cache_after (get_api_discord_idusername p key c) = c"
    using idusername_effects [of p key c] by (rule conjunct1)
  show "issued (get_api_discord_idusername p key c) = [SelectUser key]"
    using idusername_effects [of p key c] by (rule conjunct2)
qed

theorem lookup_status_witness:
  "sent (get_api_discord_idusername example_pool ''ann'' cache_init) =
     res_json (User (user_json example_row)) \<and>
   sent (get_api_discord_idusername example_pool ''nobody'' cache_init) =
     res_status_json 404 (Error ''User not found'') \<and>
   sent (get_api_discord_idusername failing_pool ''ann'' cache_init) =
     res_status_json 500 (Error ''Failed to fetch user'')"
proof (intro conjI)
  have "select_user example_pool ''ann'' = Resolved (example_row # []) \<longrightarrow>
      sent (get_api_discord_idusername example_pool ''ann'' cache_init) =
        res_json (User (user_json example_row))"
    using lookup_status [of example_pool "''ann''" cache_init example_row "[]" "''x''"]
    by (elim conjE)
  then show "sent (get_api_discord_idusername example_pool ''ann'' cache_init) =
      res_json (User (user_json example_row))"
    using example_lookup by simp
next
  have f: "failure example_pool (SelectUser ''nobody'') = None"
    by (simp add: example_pool_def)
  have n: "\<not> (\<exists>r \<in> set (channel_activity example_pool).
      on_server r \<and> (user_id r = ''nobody'' \<or> username_col r = Some ''nobody''))"
    by (simp add: example_pool_def example_row_def example_old_row_def)
  have "failure example_pool (SelectUser ''nobody'') = None \<longrightarrow>
      (select_user example_pool ''nobody'' = Resolved []) =
        (\<not> (\<exists>r \<in> set (channel_activity example_pool).
              on_server r \<and> (user_id r = ''nobody'' \<or> username_col r = Some ''nobody'')))"
    using lookup_status [of example_pool "''nobody''" cache_init example_row "[]" "''x''"]
    by (elim conjE)
  with f n have e: "select_user example_pool ''nobody'' = Resolved []" by simp
  have "select_user example_pool ''nobody'' = Resolved [] \<longrightarrow>
      sent (get_api_discord_idusername example_pool ''nobody'' cache_init) =
        res_status_json 404 (Error ''User not found'')"
    using lookup_status [of example_pool "''nobody''" cache_init example_row "[]" "''x''"]
    by (elim conjE)
  with e show "sent (get_api_discord_idusername example_pool ''nobody'' cache_init) =
      res_status_json 404 (Error ''User not found'')"
    by simp
next
  have r: "failure failing_pool (SelectUser ''ann'') = Some ''connection terminated''"
    by (simp add: failing_pool_def)
  have "(select_user failing_pool ''ann'' = Rejected ''connection terminated'') =
      (failure failing_pool (SelectUser ''ann'') = Some ''connection terminated'')"
    using lookup_status [of failing_pool "''ann''" cache_init example_row "[]" "''connection terminated''"]
    by (elim conjE)
  with r have e: "select_user failing_pool ''ann'' = Rejected ''connection terminated''" by simp
  have "select_user failing_pool ''ann'' = Rejected ''connection terminated'' \<longrightarrow>
      sent (get_api_discord_idusername failing_pool ''ann'' cache_init) =
        res_status_json 500 (Error ''Failed to fetch user'')"
    using lookup_status [of failing_pool "''ann''" cache_init example_row "[]" "''connection terminated''"]
    by (elim conjE)
  with e show "sent (get_api_discord_idusername failing_pool ''ann'' cache_init) =
      res_status_json 500 (Error ''Failed to fetch user'')"
    by simp
qed















section \<open>Facts about the activity endpoints\<close>



















lemma group_sum_distinct: "distinct (map fst (group_sum key val rows))"
  by (simp add: group_sum_def comp_def)



lemma window_sums_distinct: "distinct (map fst (window_sums tbl d1 d2 m))"
  unfolding window_sums_def using group_sum_distinct by (rule distinct_map_filter)




















lemma distinct_Set_from: "distinct seen \<Longrightarrow> distinct (Set_from seen xs)"
  by (induction seen xs rule: Set_from.induct) auto



lemma coreSet_distinct: "distinct (coreSet handles)"
  by (simp add: coreSet_def distinct_Set_from)







end
